theory Spec2Isabelle
  imports Complex_Main
begin

section \<open>Data model of app.py\<close>

text \<open>
  The two tables of the application. A row of \<^verbatim>\<open>prizes\<close> has the columns id, name,
  weight (Integer, not nullable) and active; a row of \<^verbatim>\<open>players\<close> has id, name
  (nullable), spins_per_day, last_spin_date (a nullable ISO date string), spins_today and
  active. Python integers are unbounded, so Integer columns are \<^typ>\<open>int\<close>. The fields
  carry a prefix where the two tables share a column name.
\<close>

record prize =
  prize_id :: int
  prize_name :: string
  weight :: int
  prize_active :: bool

record player =
  player_id :: int
  player_name :: "string option"
  spins_per_day :: int
  last_spin_date :: "string option"
  spins_today :: int
  player_active :: bool

text \<open>The persistent store: the rows of both tables, in storage order.\<close>

record store =
  players_tbl :: "player list"
  prizes_tbl :: "prize list"

section \<open>Player.spins_left_today\<close>

text \<open>
  \<^verbatim>\<open>date.today().isoformat()\<close> is the parameter \<open>today_str\<close>. A stored date of
  \<^verbatim>\<open>None\<close> differs from every date string.
\<close>

definition spins_left_today :: "string \<Rightarrow> player \<Rightarrow> int" where
  "spins_left_today today_str self =
     (if last_spin_date self \<noteq> Some today_str then spins_per_day self
      else max (spins_per_day self - spins_today self) 0)"

section \<open>weighted_random_choice\<close>

text \<open>
  \<^verbatim>\<open>x or 0\<close> on an integer: the left operand unless it is falsy (zero).
\<close>

definition py_or :: "int \<Rightarrow> int \<Rightarrow> int" where
  "py_or a b = (if a \<noteq> 0 then a else b)"

text \<open>
  The randomness source \<^verbatim>\<open>random.uniform\<close> is library code; it is a parameter
  \<open>uniform\<close> that, given the two bounds, yields the drawn value. The drawn float is
  read as the real number it denotes: Python compares a float with an integer exactly, so
  \<^verbatim>\<open>r <= upto\<close> is the comparison of reals.
\<close>

type_synonym rand_source = "int \<Rightarrow> int \<Rightarrow> real"

text \<open>
  The \<^verbatim>\<open>for p, w in zip(prizes, weights)\<close> loop with its running sum \<^verbatim>\<open>upto\<close> (here \<open>up_to\<close>);
  \<open>None\<close> means the loop ran to its end without returning.
\<close>

fun walk :: "real \<Rightarrow> int \<Rightarrow> (prize \<times> int) list \<Rightarrow> prize option" where
  "walk r up_to [] = None"
| "walk r up_to ((p, w) # rest) =
     (let up_to' = up_to + w
      in if r \<le> real_of_int up_to' then Some p else walk r up_to' rest)"

definition clamped_weights :: "prize list \<Rightarrow> int list" where
  "clamped_weights prizes = map (\<lambda>p. max (py_or (weight p) 0) 0) prizes"

text \<open>
  After the loop the source returns \<^verbatim>\<open>prizes[-1]\<close>. That line is reached only
  when \<open>total > 0\<close>, hence on a non-empty list (lemma \<open>total_pos_nonempty\<close> below),
  where \<^verbatim>\<open>prizes[-1]\<close> is \<^term>\<open>last prizes\<close>.
\<close>

definition weighted_random_choice :: "rand_source \<Rightarrow> prize list \<Rightarrow> prize option" where
  "weighted_random_choice uniform prizes =
     (let weights = clamped_weights prizes;
          total = sum_list weights
      in if total \<le> 0 then None
         else let r = uniform 0 total
              in (case walk r 0 (zip prizes weights) of
                    Some p \<Rightarrow> Some p
                  | None \<Rightarrow> Some (last prizes)))"

text \<open>
  In the source \<^verbatim>\<open>random.uniform\<close> is not an argument: line 144 calls the module-level
  function, which reads and advances the interpreter's global generator. The state a call
  of \<^verbatim>\<open>weighted_random_choice\<close> runs in is therefore explicit here: the generator, the
  persistent store and the session's \<^verbatim>\<open>player_id\<close> entry, all of them reachable from
  the function body as module globals.
\<close>

record 'g world =
  generator :: 'g
  database :: store
  flask_session :: "int option"

text \<open>
  The same function, line by line, with that state threaded through. The library call is
  the parameter \<open>uniform_st\<close>: from a generator state and the two bounds it yields the
  drawn value and the generator state afterwards.
\<close>

definition weighted_random_choice_st ::
  "('g \<Rightarrow> int \<Rightarrow> int \<Rightarrow> real \<times> 'g) \<Rightarrow> 'g world \<Rightarrow> prize list \<Rightarrow> prize option \<times> 'g world"
where
  "weighted_random_choice_st uniform_st w prizes =
     (let weights = clamped_weights prizes;
          total = sum_list weights
      in if total \<le> 0 then (None, w)
         else let (r, g') = uniform_st (generator w) 0 total;
                  w' = w\<lparr>generator := g'\<rparr>
              in (case walk r 0 (zip prizes weights) of
                    Some p \<Rightarrow> (Some p, w')
                  | None \<Rightarrow> (Some (last prizes), w')))"

section \<open>The /api/spin route\<close>

text \<open>
  The JSON responses of the route, one constructor per \<^verbatim>\<open>return\<close>: 401 not logged
  in, 400 invalid account, 400 daily quota used up, 400 no active prizes, 500 cannot choose
  prize, and the success response with the prize and \<^verbatim>\<open>spins_left_today\<close>.
\<close>

datatype response =
    NotLoggedIn
  | InvalidAccount
  | QuotaUsedUp
  | NoActivePrizes
  | CannotChoosePrize
  | Success prize int

text \<open>
  \<^verbatim>\<open>db.query(Player).filter(Player.id == pid, Player.active == True).first()\<close>
\<close>

definition query_player :: "int \<Rightarrow> store \<Rightarrow> player option" where
  "query_player pid db = find (\<lambda>p. player_id p = pid \<and> player_active p) (players_tbl db)"

text \<open>
  \<^verbatim>\<open>db.query(Prize).filter(Prize.active == True, Prize.weight > 0).order_by(Prize.id).all()\<close>
\<close>

definition query_prizes :: "store \<Rightarrow> prize list" where
  "query_prizes db =
     sort_key prize_id (filter (\<lambda>p. prize_active p \<and> weight p > 0) (prizes_tbl db))"

text \<open>
  \<^verbatim>\<open>db.commit()\<close> with the loaded player object dirty: the changed columns
  last_spin_date and spins_today are written to the row with the object's primary key.
\<close>

definition commit_player :: "player \<Rightarrow> store \<Rightarrow> store" where
  "commit_player pl db =
     db\<lparr>players_tbl :=
          map (\<lambda>q. if player_id q = player_id pl
                   then q\<lparr>last_spin_date := last_spin_date pl, spins_today := spins_today pl\<rparr>
                   else q)
              (players_tbl db)\<rparr>"

text \<open>
  The date rollover of the route (and of \<^verbatim>\<open>/auto-login\<close>):
  \<^verbatim>\<open>if player.last_spin_date != today_str: player.last_spin_date = today_str; player.spins_today = 0\<close>
\<close>

definition rollover :: "string \<Rightarrow> player \<Rightarrow> player" where
  "rollover today_str pl =
     (if last_spin_date pl \<noteq> Some today_str
      then pl\<lparr>last_spin_date := Some today_str, spins_today := 0\<rparr>
      else pl)"

text \<open>
  The route as a function of the random source, today's date string, the session's
  \<^verbatim>\<open>player_id\<close> entry and the store; it returns the response and the store as it is
  persisted afterwards. \<^verbatim>\<open>if not pid\<close> holds for a missing entry and for 0. The
  assignments to the loaded player object live in the ORM session only; they reach the
  store at \<^verbatim>\<open>db.commit()\<close>, which only the success path executes. Every early
  \<^verbatim>\<open>return\<close> leaves the \<^verbatim>\<open>with SessionLocal() as db\<close> block without a commit, so
  the session is closed and its pending changes are discarded.
\<close>

definition spin :: "rand_source \<Rightarrow> string \<Rightarrow> int option \<Rightarrow> store \<Rightarrow> response \<times> store" where
  "spin uniform today_str session_pid db =
     (case session_pid of
        None \<Rightarrow> (NotLoggedIn, db)
      | Some pid \<Rightarrow>
          if pid = 0 then (NotLoggedIn, db)
          else
            (case query_player pid db of
               None \<Rightarrow> (InvalidAccount, db)
             | Some loaded \<Rightarrow>
                 let player = rollover today_str loaded
                 in if spins_today player \<ge> spins_per_day player then (QuotaUsedUp, db)
                    else
                      let prizes = query_prizes db
                      in if prizes = [] then (NoActivePrizes, db)
                         else
                           (case weighted_random_choice uniform prizes of
                              None \<Rightarrow> (CannotChoosePrize, db)
                            | Some prize \<Rightarrow>
                                let player' = player\<lparr>spins_today := spins_today player + 1\<rparr>;
                                    db' = commit_player player' db;
                                    spins_left =
                                      max (spins_per_day player' - spins_today player') 0
                                in (Success prize spins_left, db'))))"

section \<open>Example data\<close>

text \<open>A small store used to run the definitions on concrete inputs.\<close>

definition ex_a :: prize where
  "ex_a = \<lparr>prize_id = 1, prize_name = ''100K'', weight = 10, prize_active = True\<rparr>"

definition ex_b :: prize where
  "ex_b = \<lparr>prize_id = 2, prize_name = ''1M'', weight = 0, prize_active = True\<rparr>"

definition ex_c :: prize where
  "ex_c = \<lparr>prize_id = 3, prize_name = ''500K'', weight = 5, prize_active = True\<rparr>"

definition ex_d :: prize where
  "ex_d = \<lparr>prize_id = 4, prize_name = ''Voucher'', weight = 4, prize_active = False\<rparr>"

definition ex_today :: string where
  "ex_today = ''2024-05-02''"

definition ex_spent :: player where
  "ex_spent = \<lparr>player_id = 1, player_name = Some ''User #1'', spins_per_day = 1,
               last_spin_date = Some ''2024-05-02'', spins_today = 1, player_active = True\<rparr>"

definition ex_fresh :: player where
  "ex_fresh = \<lparr>player_id = 2, player_name = Some ''User #2'', spins_per_day = 1,
               last_spin_date = Some ''2024-05-01'', spins_today = 1, player_active = True\<rparr>"

definition ex_zero :: player where
  "ex_zero = \<lparr>player_id = 3, player_name = None, spins_per_day = 0,
              last_spin_date = None, spins_today = 0, player_active = True\<rparr>"

definition ex_negative :: player where
  "ex_negative = \<lparr>player_id = 4, player_name = None, spins_per_day = - 3,
                  last_spin_date = Some ''2024-05-01'', spins_today = 0, player_active = True\<rparr>"

definition ex_store :: store where
  "ex_store = \<lparr>players_tbl = [ex_spent, ex_fresh, ex_zero, ex_negative],
               prizes_tbl = [ex_c, ex_d, ex_b, ex_a]\<rparr>"

definition ex_store_after :: store where
  "ex_store_after =
     \<lparr>players_tbl =
        [ex_spent, ex_fresh\<lparr>last_spin_date := Some ex_today, spins_today := 1\<rparr>, ex_zero,
         ex_negative],
      prizes_tbl = [ex_c, ex_d, ex_b, ex_a]\<rparr>"

text \<open>
  A toy generator whose state is a counter: a draw yields the counter modulo 16 and
  increments it. Two worlds that differ in generator state, store and session.
\<close>

definition ex_uniform :: "nat \<Rightarrow> int \<Rightarrow> int \<Rightarrow> real \<times> nat" where
  "ex_uniform g a b = (real (g mod 16), Suc g)"

definition ex_world1 :: "nat world" where
  "ex_world1 = \<lparr>generator = 12, database = ex_store, flask_session = Some 2\<rparr>"

definition ex_world2 :: "nat world" where
  "ex_world2 = \<lparr>generator = 28, database = ex_store_after, flask_session = None\<rparr>"

definition ex_world3 :: "nat world" where
  "ex_world3 = \<lparr>generator = 3, database = ex_store, flask_session = Some 2\<rparr>"

lemmas ex_defs =
  ex_a_def ex_b_def ex_c_def ex_d_def ex_today_def ex_spent_def ex_fresh_def ex_zero_def
  ex_negative_def ex_store_def

section \<open>Remaining spins\<close>

text \<open>
  C1. For every player and every current date, \<open>spins_left_today\<close> returns
  \<open>spins_per_day\<close> when the stored \<open>last_spin_date\<close> differs from today, whatever the
  stored \<open>spins_today\<close> counter is, and returns
  \<open>max (spins_per_day - spins_today) 0\<close> when \<open>last_spin_date\<close> equals today.
\<close>

theorem spins_left_today_cases:
  "(last_spin_date pl \<noteq> Some today \<longrightarrow>
      spins_left_today today (pl\<lparr>spins_today := stale\<rparr>) = spins_per_day pl)
   \<and> (last_spin_date pl = Some today \<longrightarrow>
      spins_left_today today pl = max (spins_per_day pl - spins_today pl) 0)"
  by (simp add: spins_left_today_def)

theorem spins_left_today_cases_witness:
  "last_spin_date ex_fresh \<noteq> Some ex_today
   \<and> spins_left_today ex_today (ex_fresh\<lparr>spins_today := 7\<rparr>) = spins_per_day ex_fresh
   \<and> last_spin_date ex_spent = Some ex_today
   \<and> spins_left_today ex_today ex_spent = max (spins_per_day ex_spent - spins_today ex_spent) 0"
  using spins_left_today_cases [of ex_fresh ex_today 7]
    spins_left_today_cases [of ex_spent ex_today]
  by (simp add: ex_defs)

section \<open>The weighted selector\<close>

subsection \<open>Weights and the running sum\<close>

lemma py_or_zero: "py_or a 0 = a"
  by (simp add: py_or_def)

lemma clamped_weights_eq: "clamped_weights prizes = map (\<lambda>p. max (weight p) 0) prizes"
  by (simp add: clamped_weights_def py_or_zero)

lemma clamped_weights_length: "length (clamped_weights prizes) = length prizes"
  by (simp add: clamped_weights_def)

lemma total_pos_nonempty: "0 < sum_list (clamped_weights prizes) \<Longrightarrow> prizes \<noteq> []"
  by (auto simp: clamped_weights_def)

lemma sum_list_pos_int:
  fixes xs :: "int list"
  shows "xs \<noteq> [] \<Longrightarrow> (\<And>x. x \<in> set xs \<Longrightarrow> 0 < x) \<Longrightarrow> 0 < sum_list xs"
proof (induction xs)
  case Nil
  then show ?case by simp
next
  case (Cons x xs)
  have x: "0 < x" using Cons.prems(2) by simp
  have "0 \<le> sum_list xs"
    by (rule sum_list_nonneg) (use Cons.prems(2) in force)
  with x show ?case by simp
qed

lemma positive_weights_total:
  assumes "prizes \<noteq> []" and "\<And>p. p \<in> set prizes \<Longrightarrow> 0 < weight p"
  shows "0 < sum_list (clamped_weights prizes)"
proof (rule sum_list_pos_int)
  show "clamped_weights prizes \<noteq> []" using assms(1) by (simp add: clamped_weights_def)
next
  fix x assume "x \<in> set (clamped_weights prizes)"
  then obtain p where "p \<in> set prizes" and "x = max (weight p) 0"
    by (auto simp: clamped_weights_eq)
  with assms(2) show "0 < x" by fastforce
qed

subsection \<open>The loop\<close>

text \<open>A prize the loop returns is one of the prizes it walked over.\<close>

lemma walk_Some_mem: "walk r a pws = Some p \<Longrightarrow> p \<in> fst ` set pws"
proof (induction pws arbitrary: a)
  case Nil
  then show ?case by simp
next
  case (Cons pw rest)
  obtain q w where pw: "pw = (q, w)" by (cases pw)
  show ?case
  proof (cases "r \<le> real_of_int (a + w)")
    case True
    with Cons.prems pw have "p = q" by simp
    with pw show ?thesis by simp
  next
    case False
    with Cons.prems pw have "walk r (a + w) rest = Some p" by simp
    then have "p \<in> fst ` set rest" by (rule Cons.IH)
    then show ?thesis by simp
  qed
qed

text \<open>
  The loop returns the entry at the least position whose running sum reaches \<open>r\<close>.
\<close>

lemma walk_first:
  "i < length pws \<Longrightarrow> r \<le> real_of_int (a + sum_list (map snd (take (Suc i) pws))) \<Longrightarrow>
   (\<forall>j<i. \<not> r \<le> real_of_int (a + sum_list (map snd (take (Suc j) pws)))) \<Longrightarrow>
   walk r a pws = Some (fst (pws ! i))"
proof (induction pws arbitrary: a i)
  case Nil
  then show ?case by simp
next
  case (Cons pw rest)
  obtain p w where pw: "pw = (p, w)" by (cases pw)
  show ?case
  proof (cases i)
    case 0
    with Cons.prems pw show ?thesis by simp
  next
    case (Suc k)
    from Cons.prems(3) Suc
    have "\<not> r \<le> real_of_int (a + sum_list (map snd (take (Suc 0) (pw # rest))))"
      by blast
    then have nothere: "\<not> r \<le> real_of_int (a + w)" using pw by simp
    have k: "k < length rest" using Cons.prems(1) Suc by simp
    have le: "r \<le> real_of_int ((a + w) + sum_list (map snd (take (Suc k) rest)))"
      using Cons.prems(2) Suc pw by (simp add: add.assoc)
    have nb: "\<forall>j<k. \<not> r \<le> real_of_int ((a + w) + sum_list (map snd (take (Suc j) rest)))"
    proof (intro allI impI)
      fix j assume "j < k"
      then have "Suc j < i" using Suc by simp
      with Cons.prems(3)
      have "\<not> r \<le> real_of_int (a + sum_list (map snd (take (Suc (Suc j)) (pw # rest))))"
        by blast
      then show "\<not> r \<le> real_of_int ((a + w) + sum_list (map snd (take (Suc j) rest)))"
        using pw by (simp add: add.assoc)
    qed
    from Cons.IH [OF k le nb] have "walk r (a + w) rest = Some (fst (rest ! k))" .
    with nothere pw Suc show ?thesis by simp
  qed
qed

subsection \<open>The function\<close>

lemma choice_None_iff:
  "weighted_random_choice uniform prizes = None \<longleftrightarrow> sum_list (clamped_weights prizes) \<le> 0"
  by (simp add: weighted_random_choice_def Let_def split: option.splits)

lemma choice_Nil: "weighted_random_choice uniform [] = None"
  by (simp add: weighted_random_choice_def clamped_weights_def)

lemma choice_Some_mem:
  assumes "weighted_random_choice uniform prizes = Some p"
  shows "p \<in> set prizes"
proof -
  from assms have pos: "0 < sum_list (clamped_weights prizes)"
    by (simp add: weighted_random_choice_def Let_def split: if_splits)
  then have ne: "prizes \<noteq> []" by (rule total_pos_nonempty)
  show ?thesis
  proof (cases "walk (uniform 0 (sum_list (clamped_weights prizes))) 0
                  (zip prizes (clamped_weights prizes))")
    case None
    with assms pos have "p = last prizes"
      by (simp add: weighted_random_choice_def Let_def)
    with ne show ?thesis by simp
  next
    case (Some q)
    with assms pos have "p = q"
      by (simp add: weighted_random_choice_def Let_def)
    with Some have "p \<in> fst ` set (zip prizes (clamped_weights prizes))"
      by (auto dest: walk_Some_mem)
    then show ?thesis by (auto dest: set_zip_leftD)
  qed
qed

lemma choice_at_index:
  assumes pos: "0 < sum_list (clamped_weights prizes)"
    and i: "i < length prizes"
    and le: "uniform 0 (sum_list (clamped_weights prizes))
               \<le> real_of_int (sum_list (take (Suc i) (clamped_weights prizes)))"
    and before: "\<forall>j<i. \<not> uniform 0 (sum_list (clamped_weights prizes))
               \<le> real_of_int (sum_list (take (Suc j) (clamped_weights prizes)))"
  shows "weighted_random_choice uniform prizes = Some (prizes ! i)"
proof -
  let ?ws = "clamped_weights prizes"
  let ?r = "uniform 0 (sum_list ?ws)"
  have len: "length prizes = length ?ws" by (simp add: clamped_weights_length)
  have snd_take: "map snd (take n (zip prizes ?ws)) = take n ?ws" for n
    using len by (simp add: take_zip)
  have "walk ?r 0 (zip prizes ?ws) = Some (fst (zip prizes ?ws ! i))"
  proof (rule walk_first)
    show "i < length (zip prizes ?ws)" using i len by simp
    show "?r \<le> real_of_int (0 + sum_list (map snd (take (Suc i) (zip prizes ?ws))))"
      using le by (simp only: snd_take add_0)
    show "\<forall>j<i. \<not> ?r \<le> real_of_int (0 + sum_list (map snd (take (Suc j) (zip prizes ?ws))))"
      using before by (simp only: snd_take add_0)
  qed
  moreover have "fst (zip prizes ?ws ! i) = prizes ! i" using i len by simp
  ultimately have "walk ?r 0 (zip prizes ?ws) = Some (prizes ! i)" by simp
  with pos show ?thesis by (simp add: weighted_random_choice_def Let_def)
qed

lemma choice_three:
  assumes "weight p1 = 10" "weight p2 = 0" "weight p3 = 5"
  shows "weighted_random_choice uniform [p1, p2, p3]
           = Some (if uniform 0 15 \<le> 10 then p1 else p3)"
  using assms
  by (simp add: weighted_random_choice_def clamped_weights_def py_or_def Let_def)

text \<open>
  C2. For every prize list, \<open>weighted_random_choice\<close> clamps each weight to
  \<open>max weight 0\<close>; it returns \<open>None\<close> if and only if the sum of the clamped weights
  is at most 0; and whenever that total is positive it returns a prize of the input list,
  for every value the random source draws (in particular every value in \<open>[0, total]\<close>).
\<close>

theorem choice_None_iff_total_nonpositive:
  "clamped_weights prizes = map (\<lambda>p. max (weight p) 0) prizes
   \<and> (weighted_random_choice uniform prizes = None
        \<longleftrightarrow> sum_list (map (\<lambda>p. max (weight p) 0) prizes) \<le> 0)
   \<and> (0 < sum_list (map (\<lambda>p. max (weight p) 0) prizes)
        \<longrightarrow> (\<exists>p \<in> set prizes. weighted_random_choice uniform prizes = Some p))"
proof (intro conjI impI)
  show eq: "clamped_weights prizes = map (\<lambda>p. max (weight p) 0) prizes"
    by (rule clamped_weights_eq)
  show "weighted_random_choice uniform prizes = None
        \<longleftrightarrow> sum_list (map (\<lambda>p. max (weight p) 0) prizes) \<le> 0"
    using choice_None_iff [of uniform prizes] by (simp only: eq)
  assume "0 < sum_list (map (\<lambda>p. max (weight p) 0) prizes)"
  then have "weighted_random_choice uniform prizes \<noteq> None"
    using choice_None_iff [of uniform prizes] by (simp add: eq)
  then obtain p where p: "weighted_random_choice uniform prizes = Some p" by blast
  then have "p \<in> set prizes" by (rule choice_Some_mem)
  with p show "\<exists>p \<in> set prizes. weighted_random_choice uniform prizes = Some p" by blast
qed

theorem choice_None_iff_total_nonpositive_witness:
  "0 < sum_list (map (\<lambda>p. max (weight p) 0) [ex_a, ex_b, ex_c])
   \<and> (\<exists>p \<in> set [ex_a, ex_b, ex_c].
        weighted_random_choice (\<lambda>a b. 12) [ex_a, ex_b, ex_c] = Some p)
   \<and> weighted_random_choice (\<lambda>a b. 12) [ex_b, ex_d\<lparr>weight := - 4\<rparr>] = None"
  using choice_None_iff_total_nonpositive [of "[ex_a, ex_b, ex_c]" "\<lambda>a b. 12"]
    choice_None_iff_total_nonpositive [of "[ex_b, ex_d\<lparr>weight := - 4\<rparr>]" "\<lambda>a b. 12"]
  by (simp add: ex_defs)

text \<open>
  C5. \<open>weighted_random_choice\<close> walks the prize list in the order given, accumulating
  the weights, and returns the first prize whose cumulative weight is at least the drawn
  value \<open>r\<close>: the prize at the least position \<open>i\<close> whose running sum reaches \<open>r\<close>.
  In particular, for weights \<open>[10, 0, 5]\<close> (total 15) a draw of 0 returns the first
  prize, a draw of 15 returns the third, and no draw returns the zero-weight second prize.
\<close>

theorem choice_first_cumulative:
  "(0 < sum_list (clamped_weights prizes) \<and> i < length prizes
      \<and> uniform 0 (sum_list (clamped_weights prizes))
           \<le> real_of_int (sum_list (take (Suc i) (clamped_weights prizes)))
      \<and> (\<forall>j<i. \<not> uniform 0 (sum_list (clamped_weights prizes))
           \<le> real_of_int (sum_list (take (Suc j) (clamped_weights prizes))))
     \<longrightarrow> weighted_random_choice uniform prizes = Some (prizes ! i))
   \<and> (weight p1 = 10 \<and> weight p2 = 0 \<and> weight p3 = 5 \<longrightarrow>
        sum_list (clamped_weights [p1, p2, p3]) = 15
      \<and> (uniform 0 15 = 0 \<longrightarrow> weighted_random_choice uniform [p1, p2, p3] = Some p1)
      \<and> (uniform 0 15 = 15 \<longrightarrow> weighted_random_choice uniform [p1, p2, p3] = Some p3)
      \<and> (p2 \<noteq> p1 \<and> p2 \<noteq> p3 \<longrightarrow> weighted_random_choice uniform [p1, p2, p3] \<noteq> Some p2))"
proof (intro conjI impI)
  assume "0 < sum_list (clamped_weights prizes) \<and> i < length prizes
      \<and> uniform 0 (sum_list (clamped_weights prizes))
           \<le> real_of_int (sum_list (take (Suc i) (clamped_weights prizes)))
      \<and> (\<forall>j<i. \<not> uniform 0 (sum_list (clamped_weights prizes))
           \<le> real_of_int (sum_list (take (Suc j) (clamped_weights prizes))))"
  then show "weighted_random_choice uniform prizes = Some (prizes ! i)"
    by (intro choice_at_index) simp_all
next
  assume w: "weight p1 = 10 \<and> weight p2 = 0 \<and> weight p3 = 5"
  then show "sum_list (clamped_weights [p1, p2, p3]) = 15"
    by (simp add: clamped_weights_eq)
  have three: "weighted_random_choice uniform [p1, p2, p3]
                 = Some (if uniform 0 15 \<le> 10 then p1 else p3)"
    using w by (intro choice_three) simp_all
  { assume "uniform 0 15 = 0"
    with three show "weighted_random_choice uniform [p1, p2, p3] = Some p1" by simp }
  { assume "uniform 0 15 = 15"
    with three show "weighted_random_choice uniform [p1, p2, p3] = Some p3" by simp }
  { assume "p2 \<noteq> p1 \<and> p2 \<noteq> p3"
    with three show "weighted_random_choice uniform [p1, p2, p3] \<noteq> Some p2" by auto }
qed

theorem choice_first_cumulative_witness:
  "0 < sum_list (clamped_weights [ex_a, ex_b, ex_c])
   \<and> (2::nat) < length [ex_a, ex_b, ex_c]
   \<and> (12::real) \<le> real_of_int (sum_list (take (Suc 2) (clamped_weights [ex_a, ex_b, ex_c])))
   \<and> \<not> (12::real) \<le> real_of_int (sum_list (take (Suc 0) (clamped_weights [ex_a, ex_b, ex_c])))
   \<and> \<not> (12::real) \<le> real_of_int (sum_list (take (Suc 1) (clamped_weights [ex_a, ex_b, ex_c])))
   \<and> weighted_random_choice (\<lambda>a b. 12) [ex_a, ex_b, ex_c] = Some ([ex_a, ex_b, ex_c] ! 2)
   \<and> weight ex_a = 10 \<and> weight ex_b = 0 \<and> weight ex_c = 5
   \<and> weighted_random_choice (\<lambda>a b. 0) [ex_a, ex_b, ex_c] = Some ex_a
   \<and> weighted_random_choice (\<lambda>a b. real_of_int b) [ex_a, ex_b, ex_c] = Some ex_c
   \<and> ex_b \<noteq> ex_a \<and> ex_b \<noteq> ex_c
   \<and> weighted_random_choice (\<lambda>a b. 12) [ex_a, ex_b, ex_c] \<noteq> Some ex_b"
proof -
  have total: "0 < sum_list (clamped_weights [ex_a, ex_b, ex_c])"
    by (simp add: clamped_weights_eq ex_defs)
  have idx: "(2::nat) < length [ex_a, ex_b, ex_c]" by simp
  have reach: "(12::real)
      \<le> real_of_int (sum_list (take (Suc 2) (clamped_weights [ex_a, ex_b, ex_c])))"
    by (simp add: clamped_weights_eq ex_defs)
  have first: "\<not> (12::real)
      \<le> real_of_int (sum_list (take (Suc 0) (clamped_weights [ex_a, ex_b, ex_c])))"
    by (simp add: clamped_weights_eq ex_defs)
  have second: "\<not> (12::real)
      \<le> real_of_int (sum_list (take (Suc 1) (clamped_weights [ex_a, ex_b, ex_c])))"
    by (simp add: clamped_weights_eq ex_defs)
  have earlier: "\<forall>j<2. \<not> (12::real)
      \<le> real_of_int (sum_list (take (Suc j) (clamped_weights [ex_a, ex_b, ex_c])))"
    using first second by (simp add: numeral_2_eq_2 less_Suc_eq)
  have weights: "weight ex_a = 10 \<and> weight ex_b = 0 \<and> weight ex_c = 5"
    by (simp add: ex_defs)
  have distinct: "ex_b \<noteq> ex_a \<and> ex_b \<noteq> ex_c"
    by (simp add: ex_defs)
  show ?thesis
    using total idx reach first second earlier weights distinct
      choice_first_cumulative [of "[ex_a, ex_b, ex_c]" 2 "\<lambda>a b. 12" ex_a ex_b ex_c]
      choice_first_cumulative [of "[ex_a, ex_b, ex_c]" 2 "\<lambda>a b. 0" ex_a ex_b ex_c]
      choice_first_cumulative [of "[ex_a, ex_b, ex_c]" 2 "\<lambda>a b. real_of_int b" ex_a ex_b ex_c]
    by auto
qed

subsection \<open>The function in the interpreter's global state\<close>

text \<open>
  The result of a run in a world is the result of the function above for the value that
  the global generator draws in that world, and the run touches the generator only: the
  store and the session are left as they were, and the generator is advanced by the one
  draw (not at all when the total is not positive).
\<close>

lemma choice_st_result:
  "fst (weighted_random_choice_st uniform_st w prizes)
     = weighted_random_choice (\<lambda>a b. fst (uniform_st (generator w) a b)) prizes"
  by (simp add: weighted_random_choice_st_def weighted_random_choice_def Let_def
           split: prod.splits option.splits)

lemma choice_st_world:
  "snd (weighted_random_choice_st uniform_st w prizes)
     = (if sum_list (clamped_weights prizes) \<le> 0 then w
        else w\<lparr>generator :=
                 snd (uniform_st (generator w) 0 (sum_list (clamped_weights prizes)))\<rparr>)"
  by (simp add: weighted_random_choice_st_def Let_def split: prod.splits option.splits)

text \<open>
  C8. \<open>weighted_random_choice\<close> is a pure function of its prize list and of the value
  drawn from the randomness source: two runs on the same prize list, started in any two
  states of the program (generator state, store and session may all differ), return the
  same prize whenever the generator draws the same value \<open>r\<close> in both. Nothing else
  the function can reach influences the result.
\<close>

theorem choice_same_list_same_draw:
  "fst (uniform_st (generator w1) 0 (sum_list (clamped_weights prizes)))
     = fst (uniform_st (generator w2) 0 (sum_list (clamped_weights prizes)))
   \<Longrightarrow> fst (weighted_random_choice_st uniform_st w1 prizes)
       = fst (weighted_random_choice_st uniform_st w2 prizes)"
proof -
  assume same: "fst (uniform_st (generator w1) 0 (sum_list (clamped_weights prizes)))
     = fst (uniform_st (generator w2) 0 (sum_list (clamped_weights prizes)))"
  have "weighted_random_choice (\<lambda>a b. fst (uniform_st (generator w1) a b)) prizes
      = weighted_random_choice (\<lambda>a b. fst (uniform_st (generator w2) a b)) prizes"
    using same by (simp add: weighted_random_choice_def Let_def)
  then show ?thesis by (simp only: choice_st_result)
qed

text \<open>
  The two runs below start from different generator states, stores and sessions and draw
  the same value 12; a third run draws 3 and returns another prize, so the draw is what
  decides.
\<close>

theorem choice_same_list_same_draw_witness:
  "fst (ex_uniform (generator ex_world1) 0 (sum_list (clamped_weights [ex_a, ex_b, ex_c])))
     = fst (ex_uniform (generator ex_world2) 0 (sum_list (clamped_weights [ex_a, ex_b, ex_c])))
   \<and> generator ex_world1 \<noteq> generator ex_world2
   \<and> database ex_world1 \<noteq> database ex_world2
   \<and> flask_session ex_world1 \<noteq> flask_session ex_world2
   \<and> fst (weighted_random_choice_st ex_uniform ex_world1 [ex_a, ex_b, ex_c])
       = fst (weighted_random_choice_st ex_uniform ex_world2 [ex_a, ex_b, ex_c])
   \<and> fst (weighted_random_choice_st ex_uniform ex_world1 [ex_a, ex_b, ex_c]) = Some ex_c
   \<and> fst (weighted_random_choice_st ex_uniform ex_world3 [ex_a, ex_b, ex_c]) = Some ex_a"
proof -
  have same: "fst (ex_uniform (generator ex_world1) 0
                     (sum_list (clamped_weights [ex_a, ex_b, ex_c])))
     = fst (ex_uniform (generator ex_world2) 0 (sum_list (clamped_weights [ex_a, ex_b, ex_c])))"
    by (simp add: ex_uniform_def ex_world1_def ex_world2_def)
  have differ: "generator ex_world1 \<noteq> generator ex_world2
      \<and> database ex_world1 \<noteq> database ex_world2
      \<and> flask_session ex_world1 \<noteq> flask_session ex_world2"
    by (simp add: ex_world1_def ex_world2_def ex_store_after_def ex_defs)
  have first: "fst (weighted_random_choice_st ex_uniform ex_world1 [ex_a, ex_b, ex_c])
                 = Some ex_c"
    by (simp add: choice_st_result choice_three ex_uniform_def ex_world1_def ex_defs)
  have third: "fst (weighted_random_choice_st ex_uniform ex_world3 [ex_a, ex_b, ex_c])
                 = Some ex_a"
    by (simp add: choice_st_result choice_three ex_uniform_def ex_world3_def ex_defs)
  from same differ first third
    choice_same_list_same_draw
      [of ex_uniform ex_world1 "[ex_a, ex_b, ex_c]" ex_world2, OF same]
  show ?thesis by simp
qed

section \<open>The spin route\<close>

lemma query_prizes_positive: "p \<in> set (query_prizes db) \<Longrightarrow> prize_active p \<and> 0 < weight p"
  by (simp add: query_prizes_def)

text \<open>The route once the session names a player and the player row is found.\<close>

lemma spin_found:
  assumes "pid \<noteq> 0" and "query_player pid db = Some pl"
  shows "spin uniform today (Some pid) db =
     (if spins_per_day pl \<le> spins_today (rollover today pl) then (QuotaUsedUp, db)
      else if query_prizes db = [] then (NoActivePrizes, db)
      else (case weighted_random_choice uniform (query_prizes db) of
              None \<Rightarrow> (CannotChoosePrize, db)
            | Some prize \<Rightarrow>
                (Success prize (spins_per_day pl - (spins_today (rollover today pl) + 1)),
                 commit_player
                   ((rollover today pl)\<lparr>spins_today := spins_today (rollover today pl) + 1\<rparr>)
                   db)))"
  using assms
  by (auto simp: spin_def rollover_def Let_def split: option.splits)


text \<open>
  C9. For every non-empty prize list in which every prize has a positive weight (the shape
  the route passes after filtering on active and \<open>weight > 0\<close>),
  \<open>weighted_random_choice\<close> never returns \<open>None\<close>, whatever value is drawn; so the
  route never answers with its "Cannot choose prize" response.
\<close>

theorem cannot_choose_unreachable:
  "(prizes \<noteq> [] \<and> (\<forall>p \<in> set prizes. 0 < weight p)
      \<longrightarrow> weighted_random_choice uniform prizes \<noteq> None)
   \<and> fst (spin uniform today_str session_pid db) \<noteq> CannotChoosePrize"
proof (intro conjI impI)
  assume "prizes \<noteq> [] \<and> (\<forall>p \<in> set prizes. 0 < weight p)"
  then have "0 < sum_list (clamped_weights prizes)"
    by (intro positive_weights_total) simp_all
  then show "weighted_random_choice uniform prizes \<noteq> None"
    by (simp add: choice_None_iff)
next
  have drawn: "weighted_random_choice uniform (query_prizes db) \<noteq> None"
    if "query_prizes db \<noteq> []"
  proof -
    have "0 < sum_list (clamped_weights (query_prizes db))"
      using that by (intro positive_weights_total) (simp_all add: query_prizes_positive)
    then show ?thesis by (simp add: choice_None_iff)
  qed
  show "fst (spin uniform today_str session_pid db) \<noteq> CannotChoosePrize"
    using drawn
    by (auto simp: spin_def Let_def split: option.splits)
qed

theorem cannot_choose_unreachable_witness:
  "[ex_a, ex_c] \<noteq> [] \<and> 0 < weight ex_a \<and> 0 < weight ex_c
   \<and> weighted_random_choice (\<lambda>a b. 15) [ex_a, ex_c] \<noteq> None
   \<and> fst (spin (\<lambda>a b. 15) ex_today (Some 2) ex_store) \<noteq> CannotChoosePrize"
proof -
  have shape: "[ex_a, ex_c] \<noteq> [] \<and> (\<forall>p \<in> set [ex_a, ex_c]. 0 < weight p)"
    by (simp add: ex_defs)
  with cannot_choose_unreachable [of "[ex_a, ex_c]" "\<lambda>a b. 15" ex_today "Some 2" ex_store]
  show ?thesis by simp
qed

lemma query_player_Some:
  "query_player pid db = Some pl
   \<Longrightarrow> pl \<in> set (players_tbl db) \<and> player_id pl = pid \<and> player_active pl"
  by (auto simp: query_player_def find_Some_iff)

lemma spin_Success_committed:
  "spin uniform today session_pid db = (Success prize left, db') \<Longrightarrow>
   \<exists>pid pl. session_pid = Some pid \<and> pid \<noteq> 0 \<and> query_player pid db = Some pl
     \<and> db' = commit_player
               ((rollover today pl)\<lparr>spins_today := spins_today (rollover today pl) + 1\<rparr>) db"
  by (auto simp: spin_def Let_def split: option.splits if_splits)

lemma ex_query_prizes: "query_prizes ex_store = [ex_a, ex_c]"
  by (simp add: query_prizes_def ex_defs)

lemma ex_choice_12: "weighted_random_choice (\<lambda>a b. 12) [ex_a, ex_c] = Some ex_c"
  by (simp add: weighted_random_choice_def clamped_weights_def py_or_def Let_def ex_defs)

lemma ex_query_player:
  "query_player 1 ex_store = Some ex_spent" "query_player 2 ex_store = Some ex_fresh"
  "query_player 3 ex_store = Some ex_zero" "query_player 4 ex_store = Some ex_negative"
  "query_player 9 ex_store = None"
  by (simp_all add: query_player_def ex_defs)



text \<open>
  C4. For every player whose \<open>spins_per_day\<close> is 0 or negative, and for every stored
  state, the remaining count is 0 and the player is never eligible. The new-day branch of
  \<open>spins_left_today\<close> returns \<open>spins_per_day\<close> unclamped, unlike the same-day branch
  and the route's own count: for a quota of \<open>- 3\<close> and a stale date the function
  returns \<open>- 3\<close>, not 0.
\<close>

theorem negative_quota_spins_left:
  "spins_per_day ex_negative \<le> 0
   \<and> last_spin_date ex_negative \<noteq> Some ex_today
   \<and> spins_left_today ex_today ex_negative = - 3
   \<and> spins_left_today ex_today ex_negative \<noteq> 0
   \<and> spins_left_today ex_today (ex_negative\<lparr>last_spin_date := Some ex_today\<rparr>) = 0"
  by (simp add: spins_left_today_def ex_defs)

text \<open>
  What does hold for a quota of 0 or less (with a non-negative \<open>spins_today\<close> counter
  when the stored date is today): \<open>spins_left_today\<close> is never positive, it is 0 when
  \<open>last_spin_date\<close> is today and \<open>spins_per_day\<close> itself otherwise, hence 0 whenever
  \<open>spins_per_day = 0\<close>; and the route never grants such a player a spin: it answers
  with the ordinary quota response and leaves the store unchanged.
\<close>

theorem nonpositive_quota_never_eligible:
  "spins_per_day pl \<le> 0 \<and> (last_spin_date pl = Some today \<longrightarrow> 0 \<le> spins_today pl) \<longrightarrow>
     spins_left_today today pl = (if last_spin_date pl = Some today then 0 else spins_per_day pl)
   \<and> spins_left_today today pl \<le> 0
   \<and> (spins_per_day pl = 0 \<longrightarrow> spins_left_today today pl = 0)
   \<and> (pid \<noteq> 0 \<and> query_player pid db = Some pl
        \<longrightarrow> spin uniform today (Some pid) db = (QuotaUsedUp, db))"
  by (auto simp: spins_left_today_def spin_found rollover_def)

theorem nonpositive_quota_never_eligible_witness:
  "spins_per_day ex_zero \<le> 0 \<and> last_spin_date ex_zero \<noteq> Some ex_today
   \<and> spins_per_day ex_zero = 0
   \<and> spins_left_today ex_today ex_zero = 0
   \<and> (3::int) \<noteq> 0 \<and> query_player 3 ex_store = Some ex_zero
   \<and> spin (\<lambda>a b. 12) ex_today (Some 3) ex_store = (QuotaUsedUp, ex_store)
   \<and> spins_per_day ex_negative \<le> 0 \<and> last_spin_date ex_negative \<noteq> Some ex_today
   \<and> spins_left_today ex_today ex_negative = spins_per_day ex_negative
   \<and> (4::int) \<noteq> 0 \<and> query_player 4 ex_store = Some ex_negative
   \<and> spin (\<lambda>a b. 12) ex_today (Some 4) ex_store = (QuotaUsedUp, ex_store)"
proof -
  have zero: "spins_per_day ex_zero \<le> 0 \<and> last_spin_date ex_zero \<noteq> Some ex_today
      \<and> spins_per_day ex_zero = 0"
    by (simp add: ex_defs)
  have negative: "spins_per_day ex_negative \<le> 0 \<and> last_spin_date ex_negative \<noteq> Some ex_today"
    by (simp add: ex_defs)
  have found: "(3::int) \<noteq> 0 \<and> query_player 3 ex_store = Some ex_zero
      \<and> (4::int) \<noteq> 0 \<and> query_player 4 ex_store = Some ex_negative"
    by (simp add: ex_query_player)
  show ?thesis
    using zero negative found
      nonpositive_quota_never_eligible
        [where pl = ex_zero and today = ex_today and pid = 3 and db = ex_store
           and uniform = "\<lambda>a b. 12"]
      nonpositive_quota_never_eligible
        [where pl = ex_negative and today = ex_today and pid = 4 and db = ex_store
           and uniform = "\<lambda>a b. 12"]
    by simp
qed

text \<open>
  C6. Given a player id in the session and the current date, the route answers "invalid
  account" exactly when no active player row has that id; otherwise it answers "quota used
  up" exactly when the usage after rollover has reached \<open>spins_per_day\<close>; otherwise, on
  the active prizes of positive weight in id order, it answers with a no-prize failure
  ("No active prizes" or "Cannot choose prize") exactly when the selector returns
  \<open>None\<close> on that list; otherwise it succeeds with the chosen prize and the remaining
  count \<open>spins_per_day - (usage + 1)\<close>. The checks are made in this order, so the
  outcomes exclude one another.
\<close>

theorem spin_outcomes_in_order:
  "pid \<noteq> 0 \<longrightarrow>
     (fst (spin uniform today (Some pid) db) = InvalidAccount
        \<longleftrightarrow> \<not> (\<exists>p \<in> set (players_tbl db). player_id p = pid \<and> player_active p))
   \<and> (query_player pid db = Some pl \<longrightarrow>
        (fst (spin uniform today (Some pid) db) = QuotaUsedUp
           \<longleftrightarrow> spins_per_day pl \<le> spins_today (rollover today pl))
      \<and> (spins_today (rollover today pl) < spins_per_day pl \<longrightarrow>
           (fst (spin uniform today (Some pid) db) \<in> {NoActivePrizes, CannotChoosePrize}
              \<longleftrightarrow> weighted_random_choice uniform (query_prizes db) = None)
         \<and> (\<forall>prize. weighted_random_choice uniform (query_prizes db) = Some prize \<longrightarrow>
              fst (spin uniform today (Some pid) db)
                = Success prize (spins_per_day pl - (spins_today (rollover today pl) + 1)))))"
proof (intro impI conjI)
  assume pid: "pid \<noteq> 0"
  show "fst (spin uniform today (Some pid) db) = InvalidAccount
        \<longleftrightarrow> \<not> (\<exists>p \<in> set (players_tbl db). player_id p = pid \<and> player_active p)"
  proof (cases "query_player pid db")
    case None
    then have "\<not> (\<exists>p \<in> set (players_tbl db). player_id p = pid \<and> player_active p)"
      by (simp add: query_player_def find_None_iff)
    moreover from None pid have "fst (spin uniform today (Some pid) db) = InvalidAccount"
      by (simp add: spin_def)
    ultimately show ?thesis by simp
  next
    case (Some found)
    then have "\<exists>p \<in> set (players_tbl db). player_id p = pid \<and> player_active p"
      by (auto dest: query_player_Some)
    moreover have "fst (spin uniform today (Some pid) db) \<noteq> InvalidAccount"
      by (simp add: spin_found [OF pid Some] split: option.splits)
    ultimately show ?thesis by simp
  qed
next
  assume pid: "pid \<noteq> 0" and found: "query_player pid db = Some pl"
  show "fst (spin uniform today (Some pid) db) = QuotaUsedUp
           \<longleftrightarrow> spins_per_day pl \<le> spins_today (rollover today pl)"
    by (simp add: spin_found [OF pid found] split: option.splits)
next
  assume pid: "pid \<noteq> 0" and found: "query_player pid db = Some pl"
    and quota: "spins_today (rollover today pl) < spins_per_day pl"
  show "fst (spin uniform today (Some pid) db) \<in> {NoActivePrizes, CannotChoosePrize}
              \<longleftrightarrow> weighted_random_choice uniform (query_prizes db) = None"
    using quota by (simp add: spin_found [OF pid found] choice_Nil split: option.splits)
next
  assume pid: "pid \<noteq> 0" and found: "query_player pid db = Some pl"
    and quota: "spins_today (rollover today pl) < spins_per_day pl"
  show "\<forall>prize. weighted_random_choice uniform (query_prizes db) = Some prize \<longrightarrow>
              fst (spin uniform today (Some pid) db)
                = Success prize (spins_per_day pl - (spins_today (rollover today pl) + 1))"
    using quota by (auto simp: spin_found [OF pid found] choice_Nil)
qed

theorem spin_outcomes_in_order_witness:
  "(2::int) \<noteq> 0 \<and> query_player 2 ex_store = Some ex_fresh
   \<and> spins_today (rollover ex_today ex_fresh) < spins_per_day ex_fresh
   \<and> weighted_random_choice (\<lambda>a b. 12) (query_prizes ex_store) = Some ex_c
   \<and> fst (spin (\<lambda>a b. 12) ex_today (Some 2) ex_store)
       = Success ex_c (spins_per_day ex_fresh - (spins_today (rollover ex_today ex_fresh) + 1))
   \<and> fst (spin (\<lambda>a b. 12) ex_today (Some 2) ex_store) \<noteq> InvalidAccount
   \<and> fst (spin (\<lambda>a b. 12) ex_today (Some 2) ex_store) \<noteq> QuotaUsedUp"
proof -
  have found: "(2::int) \<noteq> 0 \<and> query_player 2 ex_store = Some ex_fresh"
    by (simp add: ex_query_player)
  have quota: "spins_today (rollover ex_today ex_fresh) < spins_per_day ex_fresh"
    by (simp add: rollover_def ex_defs)
  have drawn: "weighted_random_choice (\<lambda>a b. 12) (query_prizes ex_store) = Some ex_c"
    by (simp add: ex_query_prizes ex_choice_12)
  have "fst (spin (\<lambda>a b. 12) ex_today (Some 2) ex_store)
       = Success ex_c (spins_per_day ex_fresh - (spins_today (rollover ex_today ex_fresh) + 1))"
    using found quota drawn
      spin_outcomes_in_order
        [where pid = 2 and db = ex_store and pl = ex_fresh and today = ex_today
           and uniform = "\<lambda>a b. 12"]
    by blast
  with found quota drawn show ?thesis by simp
qed

subsection \<open>What a commit changes\<close>

lemma commit_player_prizes: "prizes_tbl (commit_player pl db) = prizes_tbl db"
  by (simp add: commit_player_def)

lemma commit_player_length:
  "length (players_tbl (commit_player pl db)) = length (players_tbl db)"
  by (simp add: commit_player_def)

lemma commit_player_other:
  "k < length (players_tbl db) \<Longrightarrow> player_id (players_tbl db ! k) \<noteq> player_id pl
   \<Longrightarrow> players_tbl (commit_player pl db) ! k = players_tbl db ! k"
  by (simp add: commit_player_def)

lemma commit_player_same:
  "k < length (players_tbl db) \<Longrightarrow> player_id (players_tbl db ! k) = player_id pl
   \<Longrightarrow> players_tbl (commit_player pl db) ! k
       = (players_tbl db ! k)\<lparr>last_spin_date := last_spin_date pl, spins_today := spins_today pl\<rparr>"
  by (simp add: commit_player_def)

lemma commit_player_kept_columns:
  assumes "k < length (players_tbl db)"
  shows "player_id (players_tbl (commit_player pl db) ! k) = player_id (players_tbl db ! k)"
    and "player_name (players_tbl (commit_player pl db) ! k) = player_name (players_tbl db ! k)"
    and "spins_per_day (players_tbl (commit_player pl db) ! k)
           = spins_per_day (players_tbl db ! k)"
    and "player_active (players_tbl (commit_player pl db) ! k)
           = player_active (players_tbl db ! k)"
  using assms by (simp_all add: commit_player_def)

lemma rollover_columns:
  "player_id (rollover today pl) = player_id pl"
  "last_spin_date (rollover today pl) = Some today"
  by (simp_all add: rollover_def)

text \<open>
  C10. A successful spin changes only the \<open>last_spin_date\<close> (set to today) and
  \<open>spins_today\<close> (set to one more than its value after rollover) columns of the session's
  player: the prize table, the number and order of player rows, every row of another
  player, and the id, name, \<open>spins_per_day\<close> and active columns of every row are as before.
\<close>

theorem spin_success_frame:
  "spin uniform today session_pid db = (Success prize left, db') \<Longrightarrow>
     prizes_tbl db' = prizes_tbl db
   \<and> length (players_tbl db') = length (players_tbl db)
   \<and> (\<exists>pid pl. session_pid = Some pid \<and> query_player pid db = Some pl
        \<and> pl \<in> set (players_tbl db) \<and> player_id pl = pid
        \<and> (\<forall>k < length (players_tbl db).
              player_id (players_tbl db' ! k) = player_id (players_tbl db ! k)
            \<and> player_name (players_tbl db' ! k) = player_name (players_tbl db ! k)
            \<and> spins_per_day (players_tbl db' ! k) = spins_per_day (players_tbl db ! k)
            \<and> player_active (players_tbl db' ! k) = player_active (players_tbl db ! k)
            \<and> (player_id (players_tbl db ! k) \<noteq> pid
                 \<longrightarrow> players_tbl db' ! k = players_tbl db ! k)
            \<and> (player_id (players_tbl db ! k) = pid
                 \<longrightarrow> last_spin_date (players_tbl db' ! k) = Some today
                   \<and> spins_today (players_tbl db' ! k)
                       = spins_today (rollover today pl) + 1)))"
proof -
  assume "spin uniform today session_pid db = (Success prize left, db')"
  then obtain pid pl where sess: "session_pid = Some pid"
    and found: "query_player pid db = Some pl"
    and db': "db' = commit_player
               ((rollover today pl)\<lparr>spins_today := spins_today (rollover today pl) + 1\<rparr>) db"
    by (blast dest: spin_Success_committed)
  let ?new = "(rollover today pl)\<lparr>spins_today := spins_today (rollover today pl) + 1\<rparr>"
  have new_id: "player_id ?new = pid"
    using found by (simp add: rollover_columns query_player_Some)
  have rows: "\<forall>k < length (players_tbl db).
              player_id (players_tbl db' ! k) = player_id (players_tbl db ! k)
            \<and> player_name (players_tbl db' ! k) = player_name (players_tbl db ! k)
            \<and> spins_per_day (players_tbl db' ! k) = spins_per_day (players_tbl db ! k)
            \<and> player_active (players_tbl db' ! k) = player_active (players_tbl db ! k)
            \<and> (player_id (players_tbl db ! k) \<noteq> pid
                 \<longrightarrow> players_tbl db' ! k = players_tbl db ! k)
            \<and> (player_id (players_tbl db ! k) = pid
                 \<longrightarrow> last_spin_date (players_tbl db' ! k) = Some today
                   \<and> spins_today (players_tbl db' ! k)
                       = spins_today (rollover today pl) + 1)"
  proof (intro allI impI conjI)
    fix k assume k: "k < length (players_tbl db)"
    show "player_id (players_tbl db' ! k) = player_id (players_tbl db ! k)"
      "player_name (players_tbl db' ! k) = player_name (players_tbl db ! k)"
      "spins_per_day (players_tbl db' ! k) = spins_per_day (players_tbl db ! k)"
      "player_active (players_tbl db' ! k) = player_active (players_tbl db ! k)"
      unfolding db' using k by (rule commit_player_kept_columns)+
    { assume "player_id (players_tbl db ! k) \<noteq> pid"
      then show "players_tbl db' ! k = players_tbl db ! k"
        unfolding db' using k new_id by (simp add: commit_player_other) }
    { assume same: "player_id (players_tbl db ! k) = pid"
      then have row: "players_tbl db' ! k
          = (players_tbl db ! k)\<lparr>last_spin_date := last_spin_date ?new,
                                  spins_today := spins_today ?new\<rparr>"
        unfolding db' using k new_id by (simp add: commit_player_same)
      show "last_spin_date (players_tbl db' ! k) = Some today"
        by (simp add: row rollover_columns)
      show "spins_today (players_tbl db' ! k) = spins_today (rollover today pl) + 1"
        by (simp add: row) }
  qed
  have "prizes_tbl db' = prizes_tbl db"
    unfolding db' by (rule commit_player_prizes)
  moreover have "length (players_tbl db') = length (players_tbl db)"
    unfolding db' by (rule commit_player_length)
  moreover have "pl \<in> set (players_tbl db) \<and> player_id pl = pid"
    using found by (simp add: query_player_Some)
  ultimately show ?thesis using sess found rows by blast
qed

theorem spin_success_frame_witness:
  "spin (\<lambda>a b. 12) ex_today (Some 2) ex_store = (Success ex_c 0, ex_store_after)
   \<and> prizes_tbl ex_store_after = prizes_tbl ex_store
   \<and> length (players_tbl ex_store_after) = length (players_tbl ex_store)
   \<and> (\<exists>pid pl. Some 2 = Some pid \<and> query_player pid ex_store = Some pl
        \<and> pl \<in> set (players_tbl ex_store) \<and> player_id pl = pid
        \<and> (\<forall>k < length (players_tbl ex_store).
              player_id (players_tbl ex_store_after ! k) = player_id (players_tbl ex_store ! k)
            \<and> player_name (players_tbl ex_store_after ! k)
                = player_name (players_tbl ex_store ! k)
            \<and> spins_per_day (players_tbl ex_store_after ! k)
                = spins_per_day (players_tbl ex_store ! k)
            \<and> player_active (players_tbl ex_store_after ! k)
                = player_active (players_tbl ex_store ! k)
            \<and> (player_id (players_tbl ex_store ! k) \<noteq> pid
                 \<longrightarrow> players_tbl ex_store_after ! k = players_tbl ex_store ! k)
            \<and> (player_id (players_tbl ex_store ! k) = pid
                 \<longrightarrow> last_spin_date (players_tbl ex_store_after ! k) = Some ex_today
                   \<and> spins_today (players_tbl ex_store_after ! k)
                       = spins_today (rollover ex_today pl) + 1)))"
proof -
  have run: "spin (\<lambda>a b. 12) ex_today (Some 2) ex_store = (Success ex_c 0, ex_store_after)"
    by (simp add: spin_found ex_query_player ex_query_prizes ex_choice_12)
       (simp add: rollover_def commit_player_def ex_store_after_def ex_defs)
  from run spin_success_frame [OF run] show ?thesis by (rule conjI)
qed

end
